theory Spec2Isabelle
  imports Main
begin

section \<open>Test-harness bisection (compiler/testing/_utils.py)\<close>

text \<open>
  Python raises \<^verbatim>\<open>AssertionError\<close> when an \<^verbatim>\<open>assert\<close> fails; the model
  returns it as the left summand. Python integers are unbounded, so they are \<^typ>\<open>int\<close>,
  and \<^verbatim>\<open>//\<close> is floor division, which is \<open>div\<close> on \<^typ>\<open>int\<close>.
\<close>

datatype error = AssertionError

text \<open>
  The \<^verbatim>\<open>while\<close> loop of \<^verbatim>\<open>bisect_with_predicate\<close> together with the assertion
  and the \<^verbatim>\<open>return\<close> that follow it. The three assertions of the loop body are branches.
\<close>

function bisect_loop :: "int \<Rightarrow> int \<Rightarrow> (int \<Rightarrow> bool) \<Rightarrow> error + int" where
  "bisect_loop last_known_good first_known_bad is_good =
     (if last_known_good + 1 < first_known_bad then
        (let middle = (last_known_good + first_known_bad + 1) div 2 in
           if \<not> (last_known_good < middle \<and> middle < first_known_bad) then Inl AssertionError
           else if is_good middle then
             (if \<not> middle < first_known_bad then Inl AssertionError
              else bisect_loop middle first_known_bad is_good)
           else
             (if \<not> last_known_good < middle then Inl AssertionError
              else bisect_loop last_known_good middle is_good))
      else if last_known_good + 1 = first_known_bad then Inr first_known_bad
      else Inl AssertionError)"
  by pat_completeness auto
termination
  by (relation "measure (\<lambda>(g, b, p). nat (b - g))") auto

definition bisect_with_predicate :: "int \<Rightarrow> int \<Rightarrow> (int \<Rightarrow> bool) \<Rightarrow> error + int" where
  "bisect_with_predicate last_known_good first_known_bad is_good =
     (if \<not> last_known_good < first_known_bad then Inl AssertionError
      else bisect_loop last_known_good first_known_bad is_good)"

declare bisect_loop.simps [simp del]

lemma bisect_loop_result:
  "g < b \<Longrightarrow>
   \<exists>n. bisect_loop g b is_good = Inr n \<and> g < n \<and> n \<le> b \<and>
       (is_good (n - 1) \<or> n - 1 = g) \<and> (\<not> is_good n \<or> n = b)"
proof (induction g b is_good rule: bisect_loop.induct)
  case (1 g b is_good)
  show ?case
  proof (cases "g + 1 < b")
    case False
    with "1.prems" have "g + 1 = b" by simp
    then show ?thesis by (subst bisect_loop.simps) simp
  next
    case True
    define m where "m = (g + b + 1) div 2"
    from True have m: "g < m" "m < b" unfolding m_def by presburger+
    show ?thesis
    proof (cases "is_good m")
      case good: True
      from "1.IH"(1) [of m] True m good
      obtain n where n: "bisect_loop m b is_good = Inr n" "m < n" "n \<le> b"
        "is_good (n - 1) \<or> n - 1 = m" "\<not> is_good n \<or> n = b"
        unfolding m_def by auto
      have "bisect_loop g b is_good = bisect_loop m b is_good"
        using True m good by (subst bisect_loop.simps) (simp add: m_def Let_def)
      with n m good show ?thesis by auto
    next
      case bad: False
      from "1.IH"(2) [of m] True m bad
      obtain n where n: "bisect_loop g m is_good = Inr n" "g < n" "n \<le> m"
        "is_good (n - 1) \<or> n - 1 = g" "\<not> is_good n \<or> n = m"
        unfolding m_def by auto
      have "bisect_loop g b is_good = bisect_loop g m is_good"
        using True m bad by (subst bisect_loop.simps) (simp add: m_def Let_def)
      with n m bad show ?thesis by auto
    qed
  qed
qed


text \<open>
  C10 (as amended). For integers \<open>last_known_good < first_known_bad\<close> and any predicate,
  \<open>bisect_with_predicate\<close> returns (no assertion fails, the loop ends) an \<open>n\<close> with
  \<open>last_known_good < n \<le> first_known_bad\<close>, whose predecessor satisfied the predicate or
  is the initial \<open>last_known_good\<close>, and which failed the predicate or is the initial
  \<open>first_known_bad\<close>. When the predicate is monotone (true up to some point, false after
  it), holds at \<open>last_known_good\<close> and fails at \<open>first_known_bad\<close>, the returned \<open>n\<close> is
  the first failing value: it fails, its predecessor does not, and no smaller value fails.
\<close>

theorem bisect_with_predicate_first_bad:
  assumes "last_known_good < first_known_bad"
  shows "\<exists>n. bisect_with_predicate last_known_good first_known_bad is_good = Inr n \<and>
           last_known_good < n \<and> n \<le> first_known_bad \<and>
           (is_good (n - 1) \<or> n - 1 = last_known_good) \<and>
           (\<not> is_good n \<or> n = first_known_bad) \<and>
           ((\<forall>x y. x \<le> y \<longrightarrow> is_good y \<longrightarrow> is_good x) \<and>
            is_good last_known_good \<and> \<not> is_good first_known_bad \<longrightarrow>
              is_good (n - 1) \<and> \<not> is_good n \<and> (\<forall>m. \<not> is_good m \<longrightarrow> n \<le> m))"
proof -
  from bisect_loop_result [OF assms, of is_good]
  obtain n where n: "bisect_loop last_known_good first_known_bad is_good = Inr n"
    "last_known_good < n" "n \<le> first_known_bad"
    "is_good (n - 1) \<or> n - 1 = last_known_good" "\<not> is_good n \<or> n = first_known_bad"
    by blast
  have mono: "is_good (n - 1) \<and> \<not> is_good n \<and> (\<forall>m. \<not> is_good m \<longrightarrow> n \<le> m)"
    if down: "\<forall>x y. x \<le> y \<longrightarrow> is_good y \<longrightarrow> is_good x"
      and good: "is_good last_known_good" and bad: "\<not> is_good first_known_bad"
  proof -
    from n(4) good have pre: "is_good (n - 1)" by auto
    from n(5) bad have fail: "\<not> is_good n" by auto
    have "n \<le> m" if "\<not> is_good m" for m
    proof (rule ccontr)
      assume "\<not> n \<le> m"
      then have "m \<le> n - 1" by simp
      with down pre have "is_good m" by blast
      with that show False by simp
    qed
    with pre fail show ?thesis by blast
  qed
  from assms n(1) have "bisect_with_predicate last_known_good first_known_bad is_good = Inr n"
    by (simp add: bisect_with_predicate_def)
  with n mono show ?thesis by blast
qed

theorem bisect_with_predicate_first_bad_witness:
  "bisect_with_predicate 0 10 (\<lambda>x. x \<le> 3) = Inr 4"
proof -
  have lt: "(0::int) < 10" by simp
  from bisect_with_predicate_first_bad [OF lt, of "\<lambda>x. x \<le> 3"]
  obtain n where r: "bisect_with_predicate 0 10 (\<lambda>x. x \<le> 3) = Inr n"
    and n: "n - 1 \<le> 3" "\<not> n \<le> 3"
    by auto
  from n have "n = 4" by simp
  with r show ?thesis by simp
qed

text \<open>
  The claim as first stated has no condition on the two end points. A predicate that is
  monotone but still true at \<open>first_known_bad\<close> refutes it: the end points are never
  passed to the predicate, and the upper one is returned although it does not fail.
\<close>

theorem bisect_with_predicate_unchecked_end_counterexample:
  "bisect_with_predicate 0 2 (\<lambda>x. x \<le> 5) = Inr 2 \<and> (\<lambda>x::int. x \<le> 5) 2"
  by (simp add: bisect_with_predicate_def bisect_loop.simps Let_def)

end
